theory Spec2Isabelle
  imports
    Main
    "HOL-Library.Word"
    "HOL-Library.AList"
    "HOL-Library.Char_ord"
    "HOL-Library.List_Lexorder"
begin

unbundle bit_operations_syntax

section \<open>free-style: a shallow embedding of \<^verbatim>\<open>src/free-style.ts\<close>\<close>

text \<open>
  Conventions of the embedding.
  \<^item> A JavaScript string is a \<^typ>\<open>string\<close>; a \<^typ>\<open>char\<close> stands for one UTF-16 code
    unit in the range 0..255 (Latin-1), and \<open>of_char\<close> is \<^verbatim>\<open>charCodeAt\<close>. The default
    \<^verbatim>\<open>sort()\<close> of JavaScript compares strings by code units, which is the
    lexicographic order of \<^typ>\<open>string\<close>.
  \<^item> A JavaScript number that holds an integer is an \<^typ>\<open>int\<close>; the 32-bit conversions
    that the bitwise operators apply are written out (\<open>ToInt32\<close>, \<open>ToUint32\<close>).
  \<^item> An object used as a dictionary is an association list in key order of
    \<^verbatim>\<open>Object.keys\<close>; reading a missing key gives \<^verbatim>\<open>undefined\<close>.
\<close>

subsection \<open>Strings\<close>

text \<open>\<^verbatim>\<open>Array.prototype.join\<close>.\<close>

fun join :: "string \<Rightarrow> string list \<Rightarrow> string" where
  "join sep [] = []"
| "join sep [x] = x"
| "join sep (x # y # ys) = x @ sep @ join sep (y # ys)"

text \<open>The character class \<^verbatim>\<open>[A-Z]\<close> of the regular expression in \<^verbatim>\<open>hyphenate\<close>.\<close>

definition isAZ :: "char \<Rightarrow> bool" where
  "isAZ c \<longleftrightarrow> 65 \<le> (of_char c :: nat) \<and> (of_char c :: nat) \<le> 90"

text \<open>
  \<^verbatim>\<open>String.prototype.toLowerCase\<close> on one code unit below 256: the letters A-Z and the
  Latin-1 capitals U+00C0..U+00DE (without the multiplication sign U+00D7) move up by 32.
\<close>

definition toLowerCase_char :: "char \<Rightarrow> char" where
  "toLowerCase_char c =
     (let n = (of_char c :: nat) in
      if (65 \<le> n \<and> n \<le> 90) \<or> (192 \<le> n \<and> n \<le> 222 \<and> n \<noteq> 215)
      then char_of (n + 32) else c)"

definition toLowerCase :: "string \<Rightarrow> string" where
  "toLowerCase s = map toLowerCase_char s"

text \<open>
  White space of \<^verbatim>\<open>String.prototype.trim\<close> among the code units below 256: TAB, LF, VT,
  FF, CR, SPACE and NBSP.
\<close>

definition isWhiteSpace :: "char \<Rightarrow> bool" where
  "isWhiteSpace c \<longleftrightarrow> (of_char c :: nat) \<in> {9, 10, 11, 12, 13, 32, 160}"

definition trim :: "string \<Rightarrow> string" where
  "trim s = rev (dropWhile isWhiteSpace (rev (dropWhile isWhiteSpace s)))"

text \<open>
  \<^verbatim>\<open>Number.prototype.toString(radix)\<close> on integers, for a radix other than ten (the
  program calls it with radix 32, on a hash): digits \<^verbatim>\<open>0-9a-z\<close>, most significant first,
  no leading zero, a minus sign for a negative number.
\<close>

definition digit_char :: "nat \<Rightarrow> char" where
  "digit_char d = (if d < 10 then char_of (48 + d) else char_of (87 + d))"

function radix_digits :: "int \<Rightarrow> int \<Rightarrow> string" where
  "radix_digits b n =
     (if b < 2 \<or> n < b then [digit_char (nat n)]
      else radix_digits b (n div b) @ [digit_char (nat (n mod b))])"
  by pat_completeness auto
termination
proof (relation "measure (\<lambda>(b, n). nat n)", goal_cases)
  case 1
  show ?case by simp
next
  case (2 b n)
  then have "n div b < n"
    by (simp add: int_div_less_self)
  with 2 show ?case by simp
qed

declare radix_digits.simps [simp del]

definition toString_radix :: "int \<Rightarrow> int \<Rightarrow> string" where
  "toString_radix b n =
     (if n < 0 then CHR ''-'' # radix_digits b (- n) else radix_digits b n)"

subsection \<open>hyphenate, isAtRule\<close>

text \<open>
  \<^verbatim>\<open>s.replace(/([A-Z])/g, '-$1')\<close>: every match of the class is replaced by a hyphen
  followed by the captured character.
\<close>

fun replace_AZ :: "string \<Rightarrow> string" where
  "replace_AZ [] = []"
| "replace_AZ (c # cs) = (if isAZ c then CHR ''-'' # c # replace_AZ cs else c # replace_AZ cs)"

text \<open>\<^verbatim>\<open>s.replace(/^ms-/, '-ms-')\<close>: only a match at the start of the string.\<close>

fun replace_ms :: "string \<Rightarrow> string" where
  "replace_ms (a # b # c # rest) =
     (if a = CHR ''m'' \<and> b = CHR ''s'' \<and> c = CHR ''-''
      then ''-ms-'' @ rest else a # b # c # rest)"
| "replace_ms s = s"

definition hyphenate :: "string \<Rightarrow> string" where
  "hyphenate propertyName = toLowerCase (replace_ms (replace_AZ propertyName))"

definition isAtRule :: "string \<Rightarrow> bool" where
  "isAtRule propertyName = (case propertyName of [] \<Rightarrow> False | c # _ \<Rightarrow> c = CHR ''@'')"

subsection \<open>hash, hashToString, hashString\<close>

definition ToUint32 :: "int \<Rightarrow> int" where
  "ToUint32 x = x mod 2 ^ 32"

definition ToInt32 :: "int \<Rightarrow> int" where
  "ToInt32 x = (let m = x mod 2 ^ 32 in if m \<ge> 2 ^ 31 then m - 2 ^ 32 else m)"

text \<open>\<^verbatim>\<open>a ^ b\<close> and \<^verbatim>\<open>a << k\<close> of JavaScript: 32-bit operands, a signed 32-bit result.\<close>

definition js_xor :: "int \<Rightarrow> int \<Rightarrow> int" where
  "js_xor a b = ToInt32 (ToInt32 a XOR ToInt32 b)"

definition js_shl :: "int \<Rightarrow> nat \<Rightarrow> int" where
  "js_shl a k = ToInt32 (push_bit (k mod 32) (ToInt32 a))"

text \<open>
  One turn of the loop of \<^verbatim>\<open>hash\<close>. The sum is an addition of numbers, not a 32-bit
  operation: six values of magnitude at most \<open>2^31\<close>, exact in a double.
\<close>

definition hash_step :: "char \<Rightarrow> int \<Rightarrow> int" where
  "hash_step c value =
     (let value = js_xor value (of_char c) in
      value + (js_shl value 1 + js_shl value 4 + js_shl value 7 + js_shl value 8
               + js_shl value 24))"

text \<open>
  \<^verbatim>\<open>seed || 0x811c9dc5\<close>: a missing seed and the seed 0 both select the default.
\<close>

definition hash :: "string \<Rightarrow> int option \<Rightarrow> int" where
  "hash str seed =
     (let value = (case seed of None \<Rightarrow> 0x811c9dc5
                   | Some s \<Rightarrow> if s = 0 then 0x811c9dc5 else s)
      in ToUint32 (fold hash_step str value))"

definition hashToString :: "int \<Rightarrow> string" where
  "hashToString h = toString_radix 32 h"

definition hashString :: "string \<Rightarrow> string" where
  "hashString str = hashToString (hash str None)"

subsection \<open>Style trees\<close>

text \<open>
  \<^verbatim>\<open>PropertyValue = void | number | string | string[] | number[]\<close>, and a nested style
  object. \<open>Absent\<close> stands for \<^verbatim>\<open>null\<close> and \<^verbatim>\<open>undefined\<close>, which the code never tells
  apart (\<^verbatim>\<open>value == null\<close>).

  The program never computes with a property value: it tests it (\<^verbatim>\<open>value == null\<close>,
  \<^verbatim>\<open>Array.isArray\<close>, \<^verbatim>\<open>typeof value === 'object'\<close>) and prints it in a template literal.
  The conversion of a number to text is the language's \<^verbatim>\<open>Number::toString\<close>, not code of
  the program, so a number is carried as the text that this conversion gives for it:
  \<^verbatim>\<open>2\<close> is \<open>Num ''2''\<close>, \<^verbatim>\<open>0.5\<close> is \<open>Num ''0.5''\<close>, \<^verbatim>\<open>-1\<close> is \<open>Num ''-1''\<close> and \<^verbatim>\<open>1e21\<close> is
  \<open>Num ''1e+21''\<close>.
\<close>

datatype scalar = Absent | Str string | Num (number_text: string)

datatype jsval =
    Scalar scalar
  | Arr "scalar list"
  | Obj "(string \<times> jsval) list"

type_synonym UserStyles = "(string \<times> jsval) list"

text \<open>\<^verbatim>\<open>Object.keys(o)\<close> and \<^verbatim>\<open>o[key]\<close>.\<close>

definition Object_keys :: "UserStyles \<Rightarrow> string list" where
  "Object_keys styles = map fst styles"

definition get_prop :: "UserStyles \<Rightarrow> string \<Rightarrow> jsval" where
  "get_prop styles key = (case map_of styles key of None \<Rightarrow> Scalar Absent | Some v \<Rightarrow> v)"

text \<open>The template literal's conversion of a string or a number to a string.\<close>

fun scalar_text :: "scalar \<Rightarrow> string" where
  "scalar_text Absent = ''undefined''"
| "scalar_text (Str s) = s"
| "scalar_text (Num n) = n"

subsection \<open>styleStringToString, styleToString, stringifyProperties\<close>

definition styleStringToString :: "string \<Rightarrow> scalar \<Rightarrow> string" where
  "styleStringToString name v =
     (if v = Absent then [] else name @ '':'' @ scalar_text v @ '';'')"

text \<open>
  The last equation is the template literal applied to an object; \<^verbatim>\<open>parseUserStyles\<close>
  never passes one.
\<close>

fun styleToString :: "string \<Rightarrow> jsval \<Rightarrow> string" where
  "styleToString name (Arr vs) = concat (map (\<lambda>v. styleStringToString name v) vs)"
| "styleToString name (Scalar v) = styleStringToString name v"
| "styleToString name (Obj _) = name @ '':[object Object];''"

definition stringifyProperties :: "(string \<times> jsval) list \<Rightarrow> string" where
  "stringifyProperties ps = concat (map (\<lambda>p. styleToString (fst p) (snd p)) ps)"

subsection \<open>parseUserStyles\<close>

record ParsedUserStyles =
  properties :: "(string \<times> jsval) list"
  nestedStyles :: "(string \<times> UserStyles) list"

text \<open>\<^verbatim>\<open>isNestedStyle\<close>: an object that is neither null nor an array.\<close>

fun isNestedStyle :: "jsval \<Rightarrow> bool" where
  "isNestedStyle (Obj _) = True"
| "isNestedStyle _ = False"

text \<open>
  The body of the loop of \<^verbatim>\<open>parseUserStyles\<close> for one key; the case \<open>Obj\<close> is the
  branch \<^verbatim>\<open>isNestedStyle(value)\<close>.
\<close>

definition parse_key :: "UserStyles \<Rightarrow> string \<Rightarrow> ParsedUserStyles \<Rightarrow> ParsedUserStyles" where
  "parse_key styles key acc =
     (case get_prop styles key of
        Obj nested \<Rightarrow> acc\<lparr>nestedStyles := nestedStyles acc @ [(trim key, nested)]\<rparr>
      | value \<Rightarrow> acc\<lparr>properties := properties acc @ [(hyphenate (trim key), value)]\<rparr>)"

definition parseUserStyles :: "UserStyles \<Rightarrow> ParsedUserStyles" where
  "parseUserStyles styles =
     fold (parse_key styles) (sort (Object_keys styles)) \<lparr>properties = [], nestedStyles = []\<rparr>"

subsection \<open>interpolate\<close>

text \<open>
  \<^verbatim>\<open>selector.replace(/&/g, parentSelector)\<close> takes a replacement string, in which
  \<^verbatim>\<open>$$\<close> is a dollar sign, \<^verbatim>\<open>$&\<close> the matched text, \<^verbatim>\<open>$`\<close> the text before the match
  and \<^verbatim>\<open>$'\<close> the text after it; the expression has no group, so \<^verbatim>\<open>$1\<close> stays as it is.
\<close>

fun getSubstitution :: "string \<Rightarrow> string \<Rightarrow> string \<Rightarrow> string \<Rightarrow> string" where
  "getSubstitution matched pre post [] = []"
| "getSubstitution matched pre post [c] = [c]"
| "getSubstitution matched pre post (c # d # rest) =
     (if c = CHR ''$'' \<and> d = CHR ''$'' then CHR ''$'' # getSubstitution matched pre post rest
      else if c = CHR ''$'' \<and> d = CHR ''&'' then matched @ getSubstitution matched pre post rest
      else if c = CHR ''$'' \<and> d = CHR 0x60 then pre @ getSubstitution matched pre post rest
      else if c = CHR ''$'' \<and> d = CHR 0x27 then post @ getSubstitution matched pre post rest
      else c # getSubstitution matched pre post (d # rest))"

fun replace_amp :: "string \<Rightarrow> string \<Rightarrow> string \<Rightarrow> string" where
  "replace_amp pre [] replacement = []"
| "replace_amp pre (c # cs) replacement =
     (if c = CHR ''&''
      then getSubstitution ''&'' pre cs replacement @ replace_amp (pre @ [c]) cs replacement
      else c # replace_amp (pre @ [c]) cs replacement)"

definition interpolate :: "string \<Rightarrow> string \<Rightarrow> string" where
  "interpolate selector parentSelector =
     (if CHR ''&'' \<in> set selector then replace_amp [] selector parentSelector
      else parentSelector @ '' '' @ selector)"

subsection \<open>Cache\<close>

text \<open>
  \<^verbatim>\<open>class Cache<T extends ICacheable>\<close>. \<open>cacheOf\<close> holds the own properties of the object
  \<^verbatim>\<open>_cache\<close> and \<open>cacheCount\<close> those of the object \<^verbatim>\<open>_cacheCount\<close>, both in the order in
  which their keys were created (the order of \<^verbatim>\<open>objectValues\<close> for keys that are not array
  indices; every node id starts with a letter). The id of an item is passed as a function
  \<open>idf\<close>.

  A call of \<^verbatim>\<open>emitChange(type, item)\<close> hands \<open>(type, item)\<close> to every registered listener
  in turn; the operations return the list of these calls. Listeners are observers: they do
  not call back into the cache.

  Both objects are made by \<^verbatim>\<open>{}\<close>, so a read \<^verbatim>\<open>o[id]\<close> of an id that is no own property
  finds the member of \<^verbatim>\<open>Object.prototype\<close> of that name, if there is one. These are the
  names of its members (ECMAScript 2015 with Annex B).
\<close>

definition Object_prototype_names :: "string list" where
  "Object_prototype_names =
     [''constructor'', ''toString'', ''toLocaleString'', ''valueOf'', ''hasOwnProperty'',
      ''isPrototypeOf'', ''propertyIsEnumerable'', ''__proto__'', ''__defineGetter__'',
      ''__defineSetter__'', ''__lookupGetter__'', ''__lookupSetter__'']"

definition inherited :: "string \<Rightarrow> bool" where
  "inherited i \<longleftrightarrow> i \<in> set Object_prototype_names"

text \<open>
  A value read from \<^verbatim>\<open>_cacheCount\<close> is a number that the cache wrote, or it is
  \<open>NotCount\<close>: an inherited member (a function, or \<^verbatim>\<open>Object.prototype\<close> itself for
  \<^verbatim>\<open>__proto__\<close>) or the string that \<^verbatim>\<open>count + 1\<close> makes of one. Every such value is truthy
  (\<^verbatim>\<open>v || 0\<close> is \<open>v\<close>), \<^verbatim>\<open>v + 1\<close> is a string again, and \<^verbatim>\<open>v === 0\<close>, \<^verbatim>\<open>v === 1\<close> and
  \<^verbatim>\<open>v > 0\<close> are false (the number that \<open>v\<close> converts to is \<^verbatim>\<open>NaN\<close>).
\<close>

datatype jscount = Count nat | NotCount

type_synonym 'a event = "string \<times> 'a"

datatype 'a cache =
  Cache (cacheOf: "(string \<times> 'a) list") (cacheCount: "(string \<times> jscount) list")

definition new_cache :: "'a cache" where
  "new_cache = Cache [] []"

definition Cache_values :: "'a cache \<Rightarrow> 'a list" where
  "Cache_values c = map snd (cacheOf c)"

text \<open>\<^verbatim>\<open>this._cacheCount[id]\<close>; \<open>None\<close> is \<^verbatim>\<open>undefined\<close>.\<close>

definition read_count :: "'a cache \<Rightarrow> string \<Rightarrow> jscount option" where
  "read_count c i =
     (case map_of (cacheCount c) i of
        Some v \<Rightarrow> Some v
      | None \<Rightarrow> if inherited i then Some NotCount else None)"

text \<open>\<^verbatim>\<open>this._cacheCount[id] || 0\<close>.\<close>

definition count_of :: "'a cache \<Rightarrow> string \<Rightarrow> jscount" where
  "count_of c i = (case read_count c i of None \<Rightarrow> Count 0 | Some v \<Rightarrow> v)"

text \<open>\<^verbatim>\<open>count + 1\<close>, \<^verbatim>\<open>count - 1\<close> (on a positive number) and \<^verbatim>\<open>count > 0\<close>.\<close>

fun plus_one :: "jscount \<Rightarrow> jscount" where
  "plus_one (Count n) = Count (n + 1)"
| "plus_one NotCount = NotCount"

fun minus_one :: "jscount \<Rightarrow> jscount" where
  "minus_one (Count n) = Count (n - 1)"
| "minus_one NotCount = NotCount"

fun positive :: "jscount \<Rightarrow> bool" where
  "positive (Count n) \<longleftrightarrow> n > 0"
| "positive NotCount \<longleftrightarrow> False"

text \<open>
  \<^verbatim>\<open>this._cacheCount[id] = v\<close> makes or overwrites an own property, except for the id
  \<^verbatim>\<open>__proto__\<close>: there the assignment calls the inherited setter, which ignores a value
  that is no object.
\<close>

definition write_count ::
  "string \<Rightarrow> jscount \<Rightarrow> (string \<times> jscount) list \<Rightarrow> (string \<times> jscount) list" where
  "write_count i v counts = (if i = ''__proto__'' then counts else AList.update i v counts)"

text \<open>
  \<^verbatim>\<open>this._cache[id]\<close>, the value that \<^verbatim>\<open>add\<close> returns: the item stored under the id, or the
  inherited member of that name, or \<^verbatim>\<open>undefined\<close>.
\<close>

datatype 'a member = Own 'a | Inherited string | Undefined

definition read_cache :: "'a cache \<Rightarrow> string \<Rightarrow> 'a member" where
  "read_cache c i =
     (case map_of (cacheOf c) i of
        Some x \<Rightarrow> Own x
      | None \<Rightarrow> if inherited i then Inherited i else Undefined)"

definition Cache_count :: "('a \<Rightarrow> string) \<Rightarrow> 'a cache \<Rightarrow> 'a \<Rightarrow> jscount" where
  "Cache_count idf c style = count_of c (idf style)"

definition Cache_has :: "('a \<Rightarrow> string) \<Rightarrow> 'a cache \<Rightarrow> 'a \<Rightarrow> bool" where
  "Cache_has idf c style \<longleftrightarrow> positive (Cache_count idf c style)"

definition Cache_add ::
  "('a \<Rightarrow> string) \<Rightarrow> 'a cache \<Rightarrow> 'a \<Rightarrow> 'a cache \<times> 'a member \<times> 'a event list" where
  "Cache_add idf c style =
     (let count = count_of c (idf style);
          c1 = Cache (cacheOf c) (write_count (idf style) (plus_one count) (cacheCount c))
      in if count = Count 0
         then (let c2 = Cache (AList.update (idf style) style (cacheOf c1)) (cacheCount c1)
               in (c2, read_cache c2 (idf style), [(''add'', style)]))
         else (c1, read_cache c1 (idf style), []))"

definition Cache_remove ::
  "('a \<Rightarrow> string) \<Rightarrow> 'a cache \<Rightarrow> 'a \<Rightarrow> 'a cache \<times> 'a event list" where
  "Cache_remove idf c style =
     (case read_count c (idf style) of
        None \<Rightarrow> (c, [])
      | Some count \<Rightarrow>
          if positive count
          then (let c1 = Cache (cacheOf c)
                           (write_count (idf style) (minus_one count) (cacheCount c))
                in if count = Count 1
                   then (Cache (AList.delete (idf style) (cacheOf c1)) (cacheCount c1),
                         [(''remove'', style)])
                   else (c1, []))
          else (c, []))"

text \<open>A sequence of calls on one cache, and the events it emits, in order.\<close>

datatype 'a call = Add 'a | Remove 'a

fun run_call ::
  "('a \<Rightarrow> string) \<Rightarrow> 'a call \<Rightarrow> 'a cache \<times> 'a event list \<Rightarrow> 'a cache \<times> 'a event list" where
  "run_call idf (Add x) (c, evs) = (case Cache_add idf c x of (c', _, es) \<Rightarrow> (c', evs @ es))"
| "run_call idf (Remove x) (c, evs) = (case Cache_remove idf c x of (c', es) \<Rightarrow> (c', evs @ es))"

definition run_calls :: "('a \<Rightarrow> string) \<Rightarrow> 'a call list \<Rightarrow> 'a cache \<times> 'a event list" where
  "run_calls idf calls = fold (run_call idf) calls (new_cache, [])"

text \<open>
  The state of a cache is consistent when \<^verbatim>\<open>_cache\<close> has a key exactly where the count is
  a positive number, \<^verbatim>\<open>_cacheCount\<close> holds a value that is no number exactly at the names
  of \<^verbatim>\<open>Object.prototype\<close>, and every item is stored under its own id.
\<close>

definition cache_ok :: "'a cache \<Rightarrow> bool" where
  "cache_ok c \<longleftrightarrow>
     (\<forall>k \<in> set (map fst (cacheOf c)). positive (count_of c k)) \<and>
     (\<forall>k \<in> set (map fst (cacheCount c)).
        positive (count_of c k) \<longrightarrow> k \<in> set (map fst (cacheOf c))) \<and>
     (\<forall>k \<in> set (map fst (cacheCount c)). count_of c k = NotCount \<longleftrightarrow> inherited k)"

definition ids_ok :: "('a \<Rightarrow> string) \<Rightarrow> 'a cache \<Rightarrow> bool" where
  "ids_ok idf c \<longleftrightarrow> (\<forall>(k, x) \<in> set (cacheOf c). k = idf x)"

subsection \<open>Selector, Style, Container, AtRule\<close>

text \<open>
  \<^verbatim>\<open>Style extends Cache<Selector>\<close> and \<^verbatim>\<open>AtRule extends Container extends
  Cache<Style | Container>\<close>: a node carries its text and its own cache. The \<^verbatim>\<open>id\<close> field is
  set once by the constructor from the text, so it is a function of the node.
  The root (\<^verbatim>\<open>FreeStyle\<close>) is a container: a \<open>node cache\<close>.
\<close>

datatype selector = Selector (selector_text: string)

datatype node =
    Style (style_text: string) "selector cache"
  | AtRule (rule_text: string) "node cache"

definition Selector_id :: "selector \<Rightarrow> string" where
  "Selector_id x = CHR ''s'' # hashString (selector_text x)"

fun node_id :: "node \<Rightarrow> string" where
  "node_id (Style style _) = CHR ''n'' # hashString style"
| "node_id (AtRule rule _) = CHR ''a'' # hashString rule"

lemma size_Cache_values [termination_simp]:
  "x \<in> set (Cache_values c) \<Longrightarrow> size x < Suc (size_cache size c)"
proof -
  assume "x \<in> set (Cache_values c)"
  then obtain k where "(k, x) \<in> set (cacheOf c)"
    by (auto simp: Cache_values_def)
  moreover have "size x < size_prod (\<lambda>_. 0) size (k, x)"
    by simp
  ultimately have "size x < size_list (size_prod (\<lambda>_. 0) size) (cacheOf c)"
    by (rule size_list_estimation)
  then show ?thesis
    by (cases c) simp
qed

fun getStyles :: "node \<Rightarrow> string" where
  "getStyles (Style style sels) =
     (if style \<noteq> []
      then join '','' (map selector_text (Cache_values sels)) @ ''{'' @ style @ ''}''
      else [])"
| "getStyles (AtRule rule c) = rule @ ''{'' @ concat (map getStyles (Cache_values c)) @ ''}''"

text \<open>\<^verbatim>\<open>Container.getStyles\<close>; \<^verbatim>\<open>join('')\<close> is concatenation.\<close>

definition Container_getStyles :: "node cache \<Rightarrow> string" where
  "Container_getStyles c = concat (map getStyles (Cache_values c))"

subsection \<open>registerUserStyles\<close>

text \<open>
  Object references. \<^verbatim>\<open>registerUserStyles\<close> works on the container it is given and on the
  nodes stored below it: \<^verbatim>\<open>container.add(new AtRule(name))\<close> returns the instance stored
  under the id of the at-rule, and \<^verbatim>\<open>container.add(new Style(styleString))\<close> the one stored
  under the id of the style. Every node it makes is stored in one cache only, so a
  reference to a container is the list of at-rule ids that leads to it from the given
  container, and a reference to a style is the reference to its container and its id.
  A mutation through a reference rebuilds the tree along the path. An id that starts with
  \<open>a\<close> is the id of an at-rule and one that starts with \<open>n\<close> the id of a style, so the
  branches that leave a node of the other kind as it is are not taken. A reference that
  denotes no object (where the JavaScript would fail on \<^verbatim>\<open>undefined\<close>) leaves the tree as
  it is; in a consistent tree every reference that a registration makes denotes an object.
\<close>

fun on_container ::
  "string list \<Rightarrow> (node cache \<Rightarrow> node cache) \<Rightarrow> node cache \<Rightarrow> node cache" where
  "on_container [] f c = f c"
| "on_container (i # p) f c =
     Cache (AList.map_entry i
              (\<lambda>n. case n of AtRule rule d \<Rightarrow> AtRule rule (on_container p f d)
                    | Style style sels \<Rightarrow> n)
              (cacheOf c))
           (cacheCount c)"

definition on_style ::
  "string \<Rightarrow> (selector cache \<Rightarrow> selector cache) \<Rightarrow> node cache \<Rightarrow> node cache" where
  "on_style i g c =
     Cache (AList.map_entry i
              (\<lambda>n. case n of Style style sels \<Rightarrow> Style style (g sels)
                    | AtRule rule d \<Rightarrow> n)
              (cacheOf c))
           (cacheCount c)"

text \<open>\<^verbatim>\<open>container.add(node)\<close> through a container reference.\<close>

definition Container_add :: "string list \<Rightarrow> node \<Rightarrow> node cache \<Rightarrow> node cache" where
  "Container_add container n r = on_container container (\<lambda>c. fst (Cache_add node_id c n)) r"

text \<open>\<^verbatim>\<open>style.add(selector)\<close> through a style reference.\<close>

definition Style_add :: "string list \<times> string \<Rightarrow> selector \<Rightarrow> node cache \<Rightarrow> node cache" where
  "Style_add style x r =
     on_container (fst style) (on_style (snd style) (\<lambda>sels. fst (Cache_add Selector_id sels x))) r"

text \<open>
  The variables that the closure \<^verbatim>\<open>stylize\<close> shares with \<^verbatim>\<open>registerUserStyles\<close>, and the
  tree below the container that was passed in.
\<close>

record reg_state =
  root :: "node cache"
  styleInstances :: "(string \<times> string list \<times> string) list"
  currentHash :: int

text \<open>The nesting depth of a style tree bounds the recursion of \<^verbatim>\<open>stylize\<close>.\<close>

fun depth_val :: "jsval \<Rightarrow> nat" and depth_list :: "(string \<times> jsval) list \<Rightarrow> nat" where
  "depth_val (Scalar v) = 0"
| "depth_val (Arr vs) = 0"
| "depth_val (Obj kvs) = Suc (depth_list kvs)"
| "depth_list [] = 0"
| "depth_list ((k, v) # kvs) = max (depth_val v) (depth_list kvs)"

fun nested_depth :: "(string \<times> UserStyles) list \<Rightarrow> nat" where
  "nested_depth [] = 0"
| "nested_depth ((k, n) # rest) = max (Suc (depth_list n)) (nested_depth rest)"

lemma depth_list_member: "(k, v) \<in> set kvs \<Longrightarrow> depth_val v \<le> depth_list kvs"
  by (induction kvs) auto

lemma nested_depth_bound:
  "(\<And>k n. (k, n) \<in> set ns \<Longrightarrow> Suc (depth_list n) \<le> d) \<Longrightarrow> nested_depth ns \<le> d"
  by (induction ns rule: nested_depth.induct) auto

lemma nestedStyles_parse_key_fold:
  "set (nestedStyles (fold (parse_key styles) ks acc))
     \<subseteq> set (nestedStyles acc) \<union> {(trim k, v) | k v. (k, Obj v) \<in> set styles}"
proof (induction ks arbitrary: acc)
  case Nil
  show ?case by simp
next
  case (Cons k ks)
  have "set (nestedStyles (parse_key styles k acc))
          \<subseteq> set (nestedStyles acc) \<union> {(trim k, v) | k v. (k, Obj v) \<in> set styles}"
    by (auto simp: parse_key_def get_prop_def split: jsval.splits option.splits
             dest: map_of_SomeD)
  with Cons.IH [of "parse_key styles k acc"] show ?case
    by auto
qed

lemma nestedStyles_member:
  assumes "(name, n) \<in> set (nestedStyles (parseUserStyles styles))"
  shows "\<exists>k. (k, Obj n) \<in> set styles"
  using assms nestedStyles_parse_key_fold [of styles "sort (Object_keys styles)"]
  by (fastforce simp: parseUserStyles_def)

lemma nested_depth_parse:
  "nested_depth (nestedStyles (parseUserStyles styles)) \<le> depth_list styles"
proof (rule nested_depth_bound)
  fix k n
  assume "(k, n) \<in> set (nestedStyles (parseUserStyles styles))"
  then obtain k' where "(k', Obj n) \<in> set styles"
    using nestedStyles_member by blast
  then show "Suc (depth_list n) \<le> depth_list styles"
    using depth_list_member by fastforce
qed

text \<open>
  \<open>stylize_nested\<close> is the loop \<^verbatim>\<open>for (const [name, value] of nestedStyles)\<close> of
  \<^verbatim>\<open>stylize\<close>.
\<close>

function stylize :: "string list \<Rightarrow> UserStyles \<Rightarrow> string \<Rightarrow> reg_state \<Rightarrow> reg_state"
  and stylize_nested ::
    "string list \<Rightarrow> string \<Rightarrow> (string \<times> UserStyles) list \<Rightarrow> reg_state \<Rightarrow> reg_state" where
  "stylize container styles selector st =
     (let parsed = parseUserStyles styles;
          styleString = stringifyProperties (properties parsed);
          style = Style styleString new_cache;
          st = st\<lparr>root := Container_add container style (root st)\<rparr>;
          st = st\<lparr>styleInstances := styleInstances st @ [(selector, container, node_id style)]\<rparr>;
          st = st\<lparr>currentHash := hash selector (Some (currentHash st))\<rparr>;
          st = st\<lparr>currentHash := hash styleString (Some (currentHash st))\<rparr>
      in stylize_nested container selector (nestedStyles parsed) st)"
| "stylize_nested container selector [] st = st"
| "stylize_nested container selector ((name, v) # rest) st =
     stylize_nested container selector rest
       (if isAtRule name
        then stylize (container @ [node_id (AtRule name new_cache)]) v selector
               (st\<lparr>root := Container_add container (AtRule name new_cache) (root st)\<rparr>)
        else stylize container v (interpolate name selector) st)"
  by pat_completeness auto
termination
proof (relation "measures
    [\<lambda>x. case x of Inl (container, styles, selector, st) \<Rightarrow> 2 * depth_list styles + 1
                   | Inr (container, selector, ns, st) \<Rightarrow> 2 * nested_depth ns,
     \<lambda>x. case x of Inl (container, styles, selector, st) \<Rightarrow> 0
                   | Inr (container, selector, ns, st) \<Rightarrow> length ns]", goal_cases)
  case 1
  show ?case by simp
next
  case (2 container styles selector st)
  then show ?case
    using nested_depth_parse [of styles] by simp
next
  case 3
  then show ?case by (simp add: max_def)
next
  case 4
  then show ?case by (simp add: max_def)
next
  case 5
  then show ?case by (simp add: max_def)
qed

declare stylize.simps [simp del]

text \<open>
  The loop \<^verbatim>\<open>for (const [selector, style] of styleInstances)\<close> of
  \<^verbatim>\<open>registerUserStyles\<close>.
\<close>

fun add_selectors ::
  "string \<Rightarrow> (string \<times> string list \<times> string) list \<Rightarrow> node cache \<Rightarrow> node cache" where
  "add_selectors currentSelector [] r = r"
| "add_selectors currentSelector ((selector, style) # rest) r =
     add_selectors currentSelector rest
       (Style_add style (Selector (interpolate selector currentSelector)) r)"

definition registerUserStyles :: "node cache \<Rightarrow> UserStyles \<Rightarrow> node cache \<times> string" where
  "registerUserStyles container styles =
     (let st = stylize [] styles ''&'' \<lparr>root = container, styleInstances = [], currentHash = 0\<rparr>;
          currentClassName = hashToString (currentHash st);
          currentSelector = ''.'' @ currentClassName
      in (add_selectors currentSelector (styleInstances st) (root st), currentClassName))"

section \<open>Definitions that state the properties\<close>

text \<open>
  The hash as the specification describes it: a 32-bit accumulator, each character folded
  in by XOR, then the accumulator plus its copies shifted left by 1, 4, 7, 8 and 24.
\<close>

definition hash32_step :: "char \<Rightarrow> 32 word \<Rightarrow> 32 word" where
  "hash32_step c acc =
     (let x = acc XOR of_char c
      in x + (push_bit 1 x + push_bit 4 x + push_bit 7 x + push_bit 8 x + push_bit 24 x))"

definition hash32 :: "string \<Rightarrow> 32 word \<Rightarrow> 32 word" where
  "hash32 str seed = fold hash32_step str seed"

text \<open>Reading a string of digits \<^verbatim>\<open>0-9a-z\<close> in a radix.\<close>

definition digit_value :: "char \<Rightarrow> int" where
  "digit_value c = (if of_char c < (58::int) then of_char c - 48 else of_char c - 87)"

definition radix_value :: "int \<Rightarrow> string \<Rightarrow> int" where
  "radix_value b s = foldl (\<lambda>a c. b * a + digit_value c) 0 s"

definition is_base32_digit :: "char \<Rightarrow> bool" where
  "is_base32_digit c \<longleftrightarrow> c \<in> set ''0123456789abcdefghijklmnopqrstuv''"

text \<open>
  Hyphenation as the specification describes it: a hyphen before each letter A-Z, the
  result in lower case, and one more hyphen in front when the key starts with the segment
  \<open>ms\<close>, that is with \<open>ms\<close> followed by a letter A-Z or by a hyphen.
\<close>

fun dash_lower :: "string \<Rightarrow> string" where
  "dash_lower [] = []"
| "dash_lower (c # cs) =
     (if isAZ c then CHR ''-'' # toLowerCase_char c # dash_lower cs
      else toLowerCase_char c # dash_lower cs)"

fun leading_ms :: "string \<Rightarrow> bool" where
  "leading_ms (a # b # c # rest) \<longleftrightarrow> a = CHR ''m'' \<and> b = CHR ''s'' \<and> (c = CHR ''-'' \<or> isAZ c)"
| "leading_ms s \<longleftrightarrow> False"

subsection \<open>The additions of one registration\<close>

text \<open>
  \<^verbatim>\<open>registerUserStyles\<close> changes the tree only by \<^verbatim>\<open>add\<close> calls, and which calls it makes
  depends on the style tree alone. \<open>ops_of\<close> lists the calls of \<^verbatim>\<open>stylize\<close> in order,
  \<open>insts_of\<close> the pairs it pushes on \<^verbatim>\<open>styleInstances\<close>, \<open>hash_of\<close> the value it leaves in
  \<^verbatim>\<open>currentHash\<close>.
\<close>

datatype op = AddNode "string list" node | AddSelector "string list \<times> string" selector

fun exec :: "op \<Rightarrow> node cache \<Rightarrow> node cache" where
  "exec (AddNode container n) r = Container_add container n r"
| "exec (AddSelector style x) r = Style_add style x r"










text \<open>
  The container that a reference denotes, and the consistency of a whole tree: every
  cache in it is consistent and every node is stored under its own id.
\<close>

fun get_container :: "string list \<Rightarrow> node cache \<Rightarrow> node cache option" where
  "get_container [] c = Some c"
| "get_container (i # p) c =
     (case map_of (cacheOf c) i of
        Some (AtRule rule d) \<Rightarrow> get_container p d
      | Some (Style style sels) \<Rightarrow> None
      | None \<Rightarrow> None)"

fun node_ok :: "node \<Rightarrow> bool" where
  "node_ok (Style style sels) \<longleftrightarrow> cache_ok sels"
| "node_ok (AtRule rule d) \<longleftrightarrow>
     cache_ok d \<and> ids_ok node_id d \<and> (\<forall>n \<in> set (Cache_values d). node_ok n)"

definition tree_ok :: "node cache \<Rightarrow> bool" where
  "tree_ok c \<longleftrightarrow> cache_ok c \<and> ids_ok node_id c \<and> (\<forall>n \<in> set (Cache_values c). node_ok n)"


text \<open>
  An addition acts on the container its reference denotes. It is satisfied in a tree when
  what it adds is present there, and ready when its reference denotes an object of the
  tree.
\<close>

fun path_of :: "op \<Rightarrow> string list" where
  "path_of (AddNode p n) = p"
| "path_of (AddSelector style x) = fst style"

fun act :: "op \<Rightarrow> node cache \<Rightarrow> node cache" where
  "act (AddNode p n) c = fst (Cache_add node_id c n)"
| "act (AddSelector style x) c =
     on_style (snd style) (\<lambda>sels. fst (Cache_add Selector_id sels x)) c"



fun style_at :: "string list \<times> string \<Rightarrow> node cache \<Rightarrow> selector cache option" where
  "style_at (p, i) r =
     (case get_container p r of
        None \<Rightarrow> None
      | Some c \<Rightarrow> (case map_of (cacheOf c) i of
                     Some (Style style sels) \<Rightarrow> Some sels
                   | Some (AtRule rule d) \<Rightarrow> None
                   | None \<Rightarrow> None))"


fun ready :: "op \<Rightarrow> node cache \<Rightarrow> bool" where
  "ready (AddNode p n) r \<longleftrightarrow> get_container p r \<noteq> None"
| "ready (AddSelector style x) r \<longleftrightarrow> style_at style r \<noteq> None"

text \<open>A container grows when its entries stay, each with its kind and text.\<close>

definition sel_grows :: "selector cache \<Rightarrow> selector cache \<Rightarrow> bool" where
  "sel_grows s s' \<longleftrightarrow> (\<forall>k. map_of (cacheOf s) k \<noteq> None \<longrightarrow> map_of (cacheOf s') k \<noteq> None)"

definition grows :: "node cache \<Rightarrow> node cache \<Rightarrow> bool" where
  "grows c c' \<longleftrightarrow>
     (\<forall>k. case map_of (cacheOf c) k of
             None \<Rightarrow> True
           | Some (Style style sels) \<Rightarrow>
               (\<exists>sels'. map_of (cacheOf c') k = Some (Style style sels') \<and> sel_grows sels sels')
           | Some (AtRule rule d) \<Rightarrow> (\<exists>d'. map_of (cacheOf c') k = Some (AtRule rule d')))"

text \<open>
  An addition is supported by earlier ones when they add the at-rule its reference ends
  in and, for a selector, the style it is added to.
\<close>

definition path_ok :: "op list \<Rightarrow> string list \<Rightarrow> bool" where
  "path_ok prev p \<longleftrightarrow>
     p = [] \<or> (\<exists>q name. AddNode q (AtRule name new_cache) \<in> set prev
                        \<and> p = q @ [node_id (AtRule name new_cache)])"

fun supported :: "op list \<Rightarrow> op \<Rightarrow> bool" where
  "supported prev (AddNode p n) \<longleftrightarrow> path_ok prev p"
| "supported prev (AddSelector style x) \<longleftrightarrow>
     path_ok prev (fst style)
     \<and> (\<exists>t. AddNode (fst style) (Style t new_cache) \<in> set prev
              \<and> snd style = node_id (Style t new_cache))"

fun wseq :: "op list \<Rightarrow> op list \<Rightarrow> bool" where
  "wseq prev [] \<longleftrightarrow> True"
| "wseq prev (x # xs) \<longleftrightarrow> supported prev x \<and> wseq (prev @ [x]) xs"


section \<open>The hash\<close>

lemma word_of_int_ToInt32: "(word_of_int (ToInt32 x) :: 32 word) = word_of_int x"
  by (simp add: ToInt32_def Let_def word_of_int_eq_iff take_bit_eq_mod)

lemma word_of_int_js_xor:
  "(word_of_int (js_xor a b) :: 32 word) = word_of_int a XOR word_of_int b"
  by (simp add: js_xor_def word_of_int_ToInt32 of_int_xor_eq)

lemma word_of_int_js_shl:
  "k < 32 \<Longrightarrow> (word_of_int (js_shl a k) :: 32 word) = push_bit k (word_of_int a)"
  by (simp add: js_shl_def word_of_int_ToInt32 of_int_push_bit)

lemma word_of_int_hash_step:
  "(word_of_int (hash_step c v) :: 32 word) = hash32_step c (word_of_int v)"
proof -
  define x where "x = js_xor v (of_char c)"
  have x: "(word_of_int x :: 32 word) = word_of_int v XOR of_char c"
    by (simp add: x_def word_of_int_js_xor of_int_of_char)
  have "(word_of_int (hash_step c v) :: 32 word)
      = word_of_int x + (word_of_int (js_shl x 1) + word_of_int (js_shl x 4)
          + word_of_int (js_shl x 7) + word_of_int (js_shl x 8) + word_of_int (js_shl x 24))"
    by (simp only: hash_step_def Let_def x_def of_int_add)
  also have "\<dots> = hash32_step c (word_of_int v)"
    by (simp only: hash32_step_def Let_def x word_of_int_js_shl [of 1] word_of_int_js_shl [of 4]
        word_of_int_js_shl [of 7] word_of_int_js_shl [of 8] word_of_int_js_shl [of 24])
  finally show ?thesis .
qed

lemma word_of_int_fold_hash_step:
  "(word_of_int (fold hash_step str v) :: 32 word) = hash32 str (word_of_int v)"
  by (induction str arbitrary: v) (simp_all add: hash32_def word_of_int_hash_step)

lemma ToUint32_uint: "ToUint32 x = uint (word_of_int x :: 32 word)"
  by (simp add: ToUint32_def uint_word_of_int)

lemma hash_eq_hash32:
  "hash str seed = uint (hash32 str (case seed of None \<Rightarrow> 0x811c9dc5
                         | Some s \<Rightarrow> if s = 0 then 0x811c9dc5 else word_of_int s))"
  by (cases seed) (simp_all add: hash_def ToUint32_uint word_of_int_fold_hash_step)

lemma hash_range: "0 \<le> hash str seed \<and> hash str seed < 2 ^ 32"
  by (simp add: hash_def ToUint32_def)

lemma hash_append:
  assumes "hash s seed \<noteq> 0"
  shows "hash t (Some (hash s seed)) = hash (s @ t) seed"
proof -
  have "hash t (Some (hash s seed)) = uint (hash32 t (word_of_int (hash s seed)))"
    using assms by (simp add: hash_eq_hash32)
  also have "(word_of_int (hash s seed) :: 32 word)
      = hash32 s (case seed of None \<Rightarrow> 0x811c9dc5
                  | Some s \<Rightarrow> if s = 0 then 0x811c9dc5 else word_of_int s)"
    by (simp add: hash_eq_hash32)
  finally show ?thesis
    by (simp add: hash_eq_hash32 hash32_def)
qed

lemma digit_value_digit_char: "d < 36 \<Longrightarrow> digit_value (digit_char d) = int d"
proof -
  have "list_all (\<lambda>d. digit_value (digit_char d) = int d) [0..<36]"
    by code_simp
  moreover assume "d < 36"
  ultimately show ?thesis
    by (simp add: list_all_iff)
qed

lemma radix_value_snoc: "radix_value b (s @ [c]) = b * radix_value b s + digit_value c"
  by (simp add: radix_value_def)

lemma radix_value_radix_digits:
  "2 \<le> b \<Longrightarrow> b \<le> 36 \<Longrightarrow> 0 \<le> n \<Longrightarrow> radix_value b (radix_digits b n) = n"
proof (induction b n rule: radix_digits.induct)
  case (1 b n)
  show ?case
  proof (cases "n < b")
    case True
    with 1 show ?thesis
      by (simp add: radix_digits.simps [of b n] radix_value_def digit_value_digit_char)
  next
    case False
    with 1 have "radix_value b (radix_digits b (n div b)) = n div b"
      by (simp add: pos_imp_zdiv_nonneg_iff)
    moreover have "0 \<le> n mod b" "n mod b < 36"
      using 1(2,3) by (simp_all add: pos_mod_bound [THEN less_le_trans])
    ultimately show ?thesis
      using False 1(2)
      by (simp add: radix_digits.simps [of b n] radix_value_snoc digit_value_digit_char)
  qed
qed

lemma is_base32_digit_digit_char: "d < 32 \<Longrightarrow> is_base32_digit (digit_char d)"
proof -
  have "list_all (\<lambda>d. is_base32_digit (digit_char d)) [0..<32]"
    by code_simp
  moreover assume "d < 32"
  ultimately show ?thesis
    by (simp add: list_all_iff)
qed

lemma radix_digits_base32: "0 \<le> n \<Longrightarrow> list_all is_base32_digit (radix_digits 32 n)"
proof (induction "32::int" n rule: radix_digits.induct)
  case (1 n)
  show ?case
  proof (cases "n < 32")
    case True
    with 1(2) show ?thesis
      by (simp add: radix_digits.simps [of 32 n] is_base32_digit_digit_char)
  next
    case False
    moreover have "nat (n mod 32) < 32"
      by simp
    ultimately show ?thesis
      using 1
      by (simp add: radix_digits.simps [of 32 n] is_base32_digit_digit_char
          pos_imp_zdiv_nonneg_iff)
  qed
qed

text \<open>
  C8. \<^verbatim>\<open>hash\<close> is the fold of the specification over a 32-bit accumulator (XOR of the
  character, then the sum with the copies shifted left by 1, 4, 7, 8 and 24, which is the
  product with 16777619), started from \<open>0x811c9dc5\<close> when no seed is given (or the seed is
  0) and from the seed otherwise; the result is an unsigned 32-bit number; \<^verbatim>\<open>hashToString\<close>
  writes it in base-32 digits that read back as the number; and a non-zero result passed
  as the seed of the next call continues the fold, so the two calls hash the
  concatenation.
\<close>

theorem hash_is_chained_hash32:
  "hash str None = uint (hash32 str 0x811c9dc5)
   \<and> hash str (Some s) = uint (hash32 str (if s = 0 then 0x811c9dc5 else word_of_int s))
   \<and> hash32_step c acc = (acc XOR of_char c) * 16777619
   \<and> 0 \<le> hash str seed \<and> hash str seed < 2 ^ 32
   \<and> list_all is_base32_digit (hashToString (hash str seed))
   \<and> radix_value 32 (hashToString (hash str seed)) = hash str seed
   \<and> (hash str seed \<noteq> 0 \<longrightarrow> hash t (Some (hash str seed)) = hash (str @ t) seed)"
proof -
  have "hash32_step c acc = (acc XOR of_char c) * 16777619"
    by (simp add: hash32_step_def Let_def push_bit_eq_mult)
  moreover have "list_all is_base32_digit (hashToString (hash str seed))"
    using hash_range [of str seed]
    by (simp add: hashToString_def toString_radix_def radix_digits_base32)
  moreover have "radix_value 32 (hashToString (hash str seed)) = hash str seed"
    using hash_range [of str seed]
    by (simp add: hashToString_def toString_radix_def radix_value_radix_digits)
  ultimately show ?thesis
    using hash_range [of str seed] hash_append [of str seed t]
    by (simp add: hash_eq_hash32)
qed

theorem hash_is_chained_hash32_witness:
  "hash ''&'' (Some 0) \<noteq> 0
   \<and> hash ''color:red;'' (Some (hash ''&'' (Some 0))) = hash ''&color:red;'' (Some 0)"
proof -
  have nz: "hash ''&'' (Some 0) \<noteq> 0"
    by code_simp
  from hash_is_chained_hash32 [where str = "''&''" and seed = "Some 0" and t = "''color:red;''"] nz
  have "hash ''color:red;'' (Some (hash ''&'' (Some 0))) = hash (''&'' @ ''color:red;'') (Some 0)"
    by blast
  with nz show ?thesis
    by simp
qed

section \<open>Property names and declarations\<close>

lemma isNestedStyle_iff: "isNestedStyle v \<longleftrightarrow> (\<exists>nested. v = Obj nested)"
  by (cases v) simp_all

lemma parse_key_isNestedStyle:
  "parse_key styles key acc =
     (if isNestedStyle (get_prop styles key)
      then acc\<lparr>nestedStyles := nestedStyles acc
             @ [(trim key, (case get_prop styles key of Obj nested \<Rightarrow> nested | _ \<Rightarrow> []))]\<rparr>
      else acc\<lparr>properties := properties acc @ [(hyphenate (trim key), get_prop styles key)]\<rparr>)"
  by (cases "get_prop styles key") (simp_all add: parse_key_def)

lemma toLowerCase_replace_AZ: "toLowerCase (replace_AZ s) = dash_lower s"
  by (induction s) (simp_all add: toLowerCase_def toLowerCase_char_def)

lemma replace_ms_take: "replace_ms x = (if take 3 x = ''ms-'' then CHR ''-'' # x else x)"
  by (induction x rule: replace_ms.induct) auto

lemma take_replace_AZ: "take 3 (replace_AZ s) = ''ms-'' \<longleftrightarrow> leading_ms s"
  by (induction s rule: leading_ms.induct) (auto simp: isAZ_def)

text \<open>
  C7. \<^verbatim>\<open>hyphenate\<close> puts a hyphen before each letter A-Z and turns the result to lower
  case, with one more hyphen in front of a key that starts with the segment \<open>ms\<close>;
  \<open>backgroundColor\<close> becomes \<open>background-color\<close>, and the layer \<open>{backgroundColor: 'red'}\<close>
  compiles to \<open>background-color:red;\<close>.
\<close>

theorem hyphenate_dash_lower:
  "hyphenate key = (if leading_ms key then CHR ''-'' # dash_lower key else dash_lower key)
   \<and> hyphenate ''backgroundColor'' = ''background-color''
   \<and> hyphenate ''msTransform'' = ''-ms-transform''
   \<and> stringifyProperties
        (properties (parseUserStyles [(''backgroundColor'', Scalar (Str ''red''))]))
       = ''background-color:red;''"
proof -
  have "hyphenate key = (if leading_ms key then CHR ''-'' # dash_lower key else dash_lower key)"
    using take_replace_AZ [of key]
    by (simp add: hyphenate_def replace_ms_take toLowerCase_replace_AZ [symmetric])
       (simp add: toLowerCase_def toLowerCase_char_def)
  moreover have "hyphenate ''backgroundColor'' = ''background-color''"
    by code_simp
  moreover have "hyphenate ''msTransform'' = ''-ms-transform''"
    by code_simp
  moreover have "stringifyProperties
        (properties (parseUserStyles [(''backgroundColor'', Scalar (Str ''red''))]))
       = ''background-color:red;''"
    by code_simp
  ultimately show ?thesis
    by blast
qed

text \<open>
  C6. A null or absent value gives no output; an array gives one declaration
  \<open>name:element;\<close> for each element that is not null, in the order of the array, equal
  elements included; a string or a number gives the single declaration \<open>name:value;\<close>,
  where the value of a number is the text that the language prints for it (\<open>2\<close>,
  \<open>0.5\<close>, \<open>1e+21\<close>). The layer
  \<open>{background: ['red', 'linear-gradient(to right, red 0%, green 100%)']}\<close> gives the two
  \<open>background\<close> declarations in the order of the array, and \<open>{flexGrow: 2,
  WebkitFlexGrow: 2}\<close> gives \<open>-webkit-flex-grow:2;flex-grow:2;\<close>.
\<close>

theorem styleToString_declarations:
  "styleToString name (Scalar Absent) = []
   \<and> styleToString name (Arr vs)
       = concat (map (\<lambda>v. name @ '':'' @ scalar_text v @ '';'') (filter (\<lambda>v. v \<noteq> Absent) vs))
   \<and> styleToString name (Arr (map Str strs)) = concat (map (\<lambda>s. name @ '':'' @ s @ '';'') strs)
   \<and> styleToString name (Arr (map Num nums)) = concat (map (\<lambda>n. name @ '':'' @ n @ '';'') nums)
   \<and> styleToString name (Scalar (Str s)) = name @ '':'' @ s @ '';''
   \<and> styleToString name (Scalar (Num n)) = name @ '':'' @ n @ '';''
   \<and> styleToString ''a'' (Arr [Str ''x'', Str ''x'']) = ''a:x;a:x;''
   \<and> styleToString ''a'' (Arr [Num ''1'', Absent, Num ''0.5'', Num ''1'']) = ''a:1;a:0.5;a:1;''
   \<and> styleToString ''flex-grow'' (Scalar (Num ''2'')) = ''flex-grow:2;''
   \<and> styleToString ''width'' (Scalar (Num ''1e+21'')) = ''width:1e+21;''
   \<and> styleToString ''margin'' (Scalar (Num ''-1'')) = ''margin:-1;''
   \<and> stringifyProperties (properties (parseUserStyles
         [(''flexGrow'', Scalar (Num ''2'')), (''WebkitFlexGrow'', Scalar (Num ''2''))]))
       = ''-webkit-flex-grow:2;flex-grow:2;''
   \<and> stringifyProperties (properties (parseUserStyles
         [(''color'', Scalar Absent), (''width'', Scalar (Num ''0''))]))
       = ''width:0;''
   \<and> stringifyProperties (properties (parseUserStyles
         [(''background'', Arr [Str ''red'', Str ''linear-gradient(to right, red 0%, green 100%)''])]))
       = ''background:red;background:linear-gradient(to right, red 0%, green 100%);''"
proof -
  have "styleToString name (Arr vs)
       = concat (map (\<lambda>v. name @ '':'' @ scalar_text v @ '';'') (filter (\<lambda>v. v \<noteq> Absent) vs))"
    by (induction vs) (simp_all add: styleStringToString_def)
  moreover have "styleToString name (Arr (map Str strs))
       = concat (map (\<lambda>s. name @ '':'' @ s @ '';'') strs)"
    by (induction strs) (simp_all add: styleStringToString_def)
  moreover have "styleToString name (Arr (map Num nums))
       = concat (map (\<lambda>n. name @ '':'' @ n @ '';'') nums)"
    by (induction nums) (simp_all add: styleStringToString_def)
  moreover have "styleToString ''a'' (Arr [Str ''x'', Str ''x'']) = ''a:x;a:x;''"
    by code_simp
  moreover have "styleToString ''a'' (Arr [Num ''1'', Absent, Num ''0.5'', Num ''1''])
       = ''a:1;a:0.5;a:1;''"
    by code_simp
  moreover have "styleToString ''flex-grow'' (Scalar (Num ''2'')) = ''flex-grow:2;''"
    by code_simp
  moreover have "styleToString ''width'' (Scalar (Num ''1e+21'')) = ''width:1e+21;''"
    by code_simp
  moreover have "styleToString ''margin'' (Scalar (Num ''-1'')) = ''margin:-1;''"
    by code_simp
  moreover have "stringifyProperties (properties (parseUserStyles
         [(''flexGrow'', Scalar (Num ''2'')), (''WebkitFlexGrow'', Scalar (Num ''2''))]))
       = ''-webkit-flex-grow:2;flex-grow:2;''"
    by code_simp
  moreover have "stringifyProperties (properties (parseUserStyles
         [(''color'', Scalar Absent), (''width'', Scalar (Num ''0''))]))
       = ''width:0;''"
    by code_simp
  moreover have "stringifyProperties (properties (parseUserStyles
         [(''background'', Arr [Str ''red'', Str ''linear-gradient(to right, red 0%, green 100%)''])]))
       = ''background:red;background:linear-gradient(to right, red 0%, green 100%);''"
    by code_simp
  ultimately show ?thesis
    by (simp add: styleStringToString_def)
qed

section \<open>Node ids and rendering\<close>

lemma map_of_update_other: "k \<noteq> i \<Longrightarrow> map_of (AList.update i v xs) k = map_of xs k"
  by (simp add: update_conv')

lemma count_of_add_other:
  "k \<noteq> idf x \<Longrightarrow> count_of (fst (Cache_add idf c x)) k = count_of c k"
  by (simp add: Cache_add_def Let_def count_of_def read_count_def write_count_def update_conv')

lemma map_of_add_other:
  "k \<noteq> idf x \<Longrightarrow> map_of (cacheOf (fst (Cache_add idf c x))) k = map_of (cacheOf c) k"
  by (simp add: Cache_add_def Let_def update_conv')

text \<open>
  C9. The id of a selector is \<open>s\<close>, that of a style \<open>n\<close> and that of an at-rule \<open>a\<close>,
  each followed by the base-32 hash of the text. So the id of a style is never the id of
  an at-rule, whatever the hashes are, and adding the one to a container leaves the slot
  and the count of the other as they were.
\<close>

theorem node_ids_tagged:
  "Selector_id (Selector sel) = CHR ''s'' # hashToString (hash sel None)
   \<and> node_id (Style style sels) = CHR ''n'' # hashToString (hash style None)
   \<and> node_id (AtRule rule d) = CHR ''a'' # hashToString (hash rule None)
   \<and> node_id (Style style sels) \<noteq> node_id (AtRule rule d)
   \<and> map_of (cacheOf (fst (Cache_add node_id c (AtRule rule d)))) (node_id (Style style sels))
       = map_of (cacheOf c) (node_id (Style style sels))
   \<and> count_of (fst (Cache_add node_id c (AtRule rule d))) (node_id (Style style sels))
       = count_of c (node_id (Style style sels))
   \<and> map_of (cacheOf (fst (Cache_add node_id c (Style style sels)))) (node_id (AtRule rule d))
       = map_of (cacheOf c) (node_id (AtRule rule d))
   \<and> count_of (fst (Cache_add node_id c (Style style sels))) (node_id (AtRule rule d))
       = count_of c (node_id (AtRule rule d))"
proof -
  have ne: "node_id (Style style sels) \<noteq> node_id (AtRule rule d)"
    by simp
  then have ne': "node_id (AtRule rule d) \<noteq> node_id (Style style sels)"
    by simp
  show ?thesis
    using map_of_add_other [where idf = node_id and c = c, OF ne]
      count_of_add_other [where idf = node_id and c = c, OF ne]
      map_of_add_other [where idf = node_id and c = c, OF ne']
      count_of_add_other [where idf = node_id and c = c, OF ne']
    by (simp add: Selector_id_def hashString_def)
qed

section \<open>The reference-counting cache\<close>


lemma inherited_proto: "inherited ''__proto__''"
  by (simp add: inherited_def Object_prototype_names_def)

lemma write_count_update: "\<not> inherited i \<Longrightarrow> write_count i v cs = AList.update i v cs"
  using inherited_proto by (auto simp: write_count_def)

lemma count_of_conv:
  "count_of c k = (case map_of (cacheCount c) k of
                     Some v \<Rightarrow> v
                   | None \<Rightarrow> if inherited k then NotCount else Count 0)"
  by (simp add: count_of_def read_count_def split: option.splits)


lemma count_of_pos_key: "positive (count_of c k) \<Longrightarrow> k \<in> fst ` set (cacheCount c)"
  by (auto simp: count_of_conv split: option.splits if_splits dest: map_of_SomeD
           intro: rev_image_eqI)

lemma count_of_no_key:
  "k \<notin> fst ` set (cacheCount c) \<Longrightarrow> count_of c k = NotCount \<longleftrightarrow> inherited k"
  by (simp add: count_of_conv map_of_eq_None_iff [THEN iffD2])

lemma cache_ok_iff:
  "cache_ok c \<longleftrightarrow> (\<forall>k. k \<in> fst ` set (cacheOf c) \<longleftrightarrow> positive (count_of c k))
                   \<and> (\<forall>k. count_of c k = NotCount \<longleftrightarrow> inherited k)"
proof -
  have a: "(\<forall>k \<in> fst ` set (cacheCount c). count_of c k = NotCount \<longleftrightarrow> inherited k)
        \<longleftrightarrow> (\<forall>k. count_of c k = NotCount \<longleftrightarrow> inherited k)" (is "?L \<longleftrightarrow> ?R")
  proof
    assume l: ?L
    show ?R
    proof
      fix k
      show "count_of c k = NotCount \<longleftrightarrow> inherited k"
      proof (cases "k \<in> fst ` set (cacheCount c)")
        case True
        with l show ?thesis by (rule bspec)
      next
        case False
        then show ?thesis by (rule count_of_no_key)
      qed
    qed
  next
    assume ?R
    then show ?L by simp
  qed
  have b: "((\<forall>k \<in> fst ` set (cacheOf c). positive (count_of c k)) \<and>
     (\<forall>k \<in> fst ` set (cacheCount c).
        positive (count_of c k) \<longrightarrow> k \<in> fst ` set (cacheOf c)))
     \<longleftrightarrow> (\<forall>k. k \<in> fst ` set (cacheOf c) \<longleftrightarrow> positive (count_of c k))"
    (is "?A \<and> ?B \<longleftrightarrow> ?C")
  proof
    assume ab: "?A \<and> ?B"
    show ?C
    proof (intro allI iffI)
      fix k
      assume k: "k \<in> fst ` set (cacheOf c)"
      from ab have ?A
        by (rule conjunct1)
      then show "positive (count_of c k)"
        using k by (rule bspec)
    next
      fix k
      assume p: "positive (count_of c k)"
      then have k: "k \<in> fst ` set (cacheCount c)"
        by (rule count_of_pos_key)
      from ab have ?B
        by (rule conjunct2)
      then have "positive (count_of c k) \<longrightarrow> k \<in> fst ` set (cacheOf c)"
        using k by (rule bspec)
      then show "k \<in> fst ` set (cacheOf c)"
        using p by (rule mp)
    qed
  next
    assume ?C
    then show "?A \<and> ?B"
      by simp
  qed
  show ?thesis
    by (simp only: cache_ok_def set_map a conj_assoc [symmetric] b)
qed

lemma cache_ok_new: "cache_ok new_cache"
  by (simp add: cache_ok_def new_cache_def)

lemma cache_ok_number: "cache_ok c \<Longrightarrow> \<not> inherited k \<Longrightarrow> \<exists>n. count_of c k = Count n"
  by (cases "count_of c k") (simp_all add: cache_ok_iff)

lemma cache_ok_inherited: "cache_ok c \<Longrightarrow> inherited k \<Longrightarrow> count_of c k = NotCount"
  by (simp add: cache_ok_iff)

lemma cache_ok_inherited_key:
  "cache_ok c \<Longrightarrow> inherited k \<Longrightarrow> k \<notin> fst ` set (cacheOf c)"
proof
  assume ok: "cache_ok c" and inh: "inherited k" and key: "k \<in> fst ` set (cacheOf c)"
  from ok key have "positive (count_of c k)"
    by (simp add: cache_ok_iff)
  moreover from ok inh have "count_of c k = NotCount"
    by (rule cache_ok_inherited)
  ultimately show False
    by simp
qed





lemma positive_plus_one: "positive (plus_one v) \<longleftrightarrow> v \<noteq> NotCount"
  by (cases v) simp_all


lemma positive_conv: "positive v \<longleftrightarrow> v \<noteq> NotCount \<and> v \<noteq> Count 0"
  by (cases v) auto













lemma Cache_add_returns_slot:
  "fst (snd (Cache_add idf c x)) = read_cache (fst (Cache_add idf c x)) (idf x)"
  by (simp add: Cache_add_def Let_def)








text \<open>
  The id \<open>toString\<close> names a member of \<^verbatim>\<open>Object.prototype\<close>. One \<^verbatim>\<open>add\<close> of an item with
  this id on a new cache emits no event and stores no entry, and \<^verbatim>\<open>has\<close> is false
  afterwards: the count that the cache reads is the inherited function, and what it
  writes back is text.
\<close>

theorem Cache_present_iff_counted_counterexample:
  "run_calls (\<lambda>s. s) [Add ''toString''] = (Cache [] [(''toString'', NotCount)], [])
   \<and> Cache_values (fst (run_calls (\<lambda>s. s) [Add ''toString''])) = []
   \<and> \<not> Cache_has (\<lambda>s. s) (fst (run_calls (\<lambda>s. s) [Add ''toString''])) ''toString''
   \<and> Cache_count (\<lambda>s. s) (fst (run_calls (\<lambda>s. s) [Add ''toString''])) ''toString'' \<noteq> Count 1"
  by code_simp



text \<open>
  On a new cache no entry has the id \<open>toString\<close>, and \<^verbatim>\<open>add\<close> of an item with this id
  stores nothing, emits nothing and returns the inherited member, not the item.
\<close>

theorem Cache_add_returns_stored_counterexample:
  "map_of (cacheOf (new_cache :: string cache)) ''toString'' = None
   \<and> Cache_add (\<lambda>s. s) new_cache ''toString''
       = (Cache [] [(''toString'', NotCount)], Inherited ''toString'', [])
   \<and> fst (snd (Cache_add (\<lambda>s. s) new_cache ''toString'')) \<noteq> Own ''toString''"
  by code_simp

section \<open>Rendering\<close>

text \<open>
  C10. An at-rule renders as its rule text and the rendering of its children in braces,
  whatever the children render to; an at-rule whose only child is a style without
  declarations renders as the rule text followed by \<open>{}\<close>, as the at-rule made by
  registering \<open>{'@media x': {}}\<close> on a new root does.
\<close>

theorem AtRule_getStyles_always_wraps:
  "getStyles (AtRule rule c) = rule @ ''{'' @ Container_getStyles c @ ''}''
   \<and> getStyles (AtRule rule (Cache [(k, Style [] sels)] counts)) = rule @ ''{}''
   \<and> Container_getStyles (fst (registerUserStyles new_cache [(''@media x'', Obj [])]))
       = ''@media x{}''"
proof -
  have "Container_getStyles (fst (registerUserStyles new_cache [(''@media x'', Obj [])]))
       = ''@media x{}''"
    by code_simp
  then show ?thesis
    by (simp add: Container_getStyles_def Cache_values_def)
qed

text \<open>
  C5. A style without declarations renders as the empty string, whatever selectors it
  holds; a style with declarations renders as the selectors of its entries, joined by
  commas, and the declarations in braces. Registering
  \<open>{color: 'red', '.foo': {color: 'red'}}\<close> on a new root makes one style for both layers,
  rendered as \<open>.c,.c .foo{color:red;}\<close> for the class name \<open>c\<close> it returns.
\<close>

theorem Style_getStyles_selectors:
  "getStyles (Style [] sels) = []
   \<and> getStyles (Style (ch # decls) sels)
       = join '','' (map selector_text (Cache_values sels)) @ ''{'' @ ch # decls @ ''}''
   \<and> (case registerUserStyles new_cache
              [(''color'', Scalar (Str ''red'')), (''.foo'', Obj [(''color'', Scalar (Str ''red''))])]
        of (r, c) \<Rightarrow>
          length (Cache_values r) = 1
          \<and> Container_getStyles r = ''.'' @ c @ '',.'' @ c @ '' .foo{color:red;}'')"
proof -
  have "(case registerUserStyles new_cache
              [(''color'', Scalar (Str ''red'')), (''.foo'', Obj [(''color'', Scalar (Str ''red''))])]
        of (r, c) \<Rightarrow>
          length (Cache_values r) = 1
          \<and> Container_getStyles r = ''.'' @ c @ '',.'' @ c @ '' .foo{color:red;}'')"
    by code_simp
  then show ?thesis
    by simp
qed

text \<open>
  C4. Registering \<open>{'@media (min-width: 500px)': {color: 'blue'}, color: 'red'}\<close> on a
  new root returns a class name \<open>c\<close>, and the root renders as the rule
  \<open>.c{color:red;}\<close> followed by \<open>@media (min-width: 500px){.c{color:blue;}}\<close>: the at-rule
  is added to the root after the style of the layer, and its body is compiled with the
  selector of the layer.
\<close>

theorem register_at_rule_after_top_level_rule:
  "(case registerUserStyles new_cache
           [(''@media (min-width: 500px)'', Obj [(''color'', Scalar (Str ''blue''))]),
            (''color'', Scalar (Str ''red''))]
    of (r, c) \<Rightarrow>
      Container_getStyles r
        = ''.'' @ c @ ''{color:red;}@media (min-width: 500px){.'' @ c @ ''{color:blue;}}''
      \<and> map getStyles (Cache_values r)
        = [''.'' @ c @ ''{color:red;}'', ''@media (min-width: 500px){.'' @ c @ ''{color:blue;}}''])
   \<and> sort [''color'', ''@media (min-width: 500px)''] = [''@media (min-width: 500px)'', ''color'']
   \<and> stylize_nested container selector [(CHR ''@'' # rule, v)] st
       = stylize (container @ [node_id (AtRule (CHR ''@'' # rule) new_cache)]) v selector
           (st\<lparr>root := Container_add container (AtRule (CHR ''@'' # rule) new_cache) (root st)\<rparr>)"
proof -
  have "(case registerUserStyles new_cache
           [(''@media (min-width: 500px)'', Obj [(''color'', Scalar (Str ''blue''))]),
            (''color'', Scalar (Str ''red''))]
    of (r, c) \<Rightarrow>
      Container_getStyles r
        = ''.'' @ c @ ''{color:red;}@media (min-width: 500px){.'' @ c @ ''{color:blue;}}''
      \<and> map getStyles (Cache_values r)
        = [''.'' @ c @ ''{color:red;}'', ''@media (min-width: 500px){.'' @ c @ ''{color:blue;}}''])
   \<and> sort [''color'', ''@media (min-width: 500px)''] = [''@media (min-width: 500px)'', ''color'']"
    by code_simp
  then show ?thesis
    by (simp add: isAtRule_def)
qed

section \<open>Registration\<close>

subsection \<open>Registration as a list of additions\<close>




subsection \<open>The order of the keys does not matter\<close>













subsection \<open>Additions through references\<close>

lemma act_AddNode: "act (AddNode p n) = (\<lambda>c. fst (Cache_add node_id c n))"
  by (rule ext) simp

lemma act_AddSelector:
  "act (AddSelector style x) = on_style (snd style) (\<lambda>sels. fst (Cache_add Selector_id sels x))"
  by (rule ext) simp

lemma exec_act: "exec x r = on_container (path_of x) (act x) r"
  by (cases x) (simp_all add: Container_add_def Style_add_def act_AddNode act_AddSelector)

lemma map_of_map_entry_same: "map_of (AList.map_entry i g xs) i = map_option g (map_of xs i)"
  by (simp add: map_of_map_entry split: option.splits)

lemma map_of_map_entry_other: "k \<noteq> i \<Longrightarrow> map_of (AList.map_entry i g xs) k = map_of xs k"
  by (simp add: map_of_map_entry)






subsection \<open>Consistency of the tree is kept\<close>

lemma node_ok_AtRule: "node_ok (AtRule rule d) \<longleftrightarrow> tree_ok d"
  by (simp add: tree_ok_def)

lemma tree_ok_node: "tree_ok r \<Longrightarrow> map_of (cacheOf r) i = Some n \<Longrightarrow> node_ok n"
  by (force simp: tree_ok_def Cache_values_def dest: map_of_SomeD)









subsection \<open>Additions only grow the tree\<close>

lemma sel_grows_refl: "sel_grows s s"
  by (simp add: sel_grows_def)

lemma grows_refl: "grows c c"
  by (auto simp: grows_def sel_grows_refl split: option.splits node.splits)

lemma sel_grows_add: "sel_grows s (fst (Cache_add Selector_id s x))"
  by (auto simp: sel_grows_def Cache_add_def Let_def update_conv')

lemma not_inherited_node_id [simp]: "\<not> inherited (node_id n)"
  by (cases n) (simp_all add: inherited_def Object_prototype_names_def)

lemma not_inherited_Selector_id [simp]: "\<not> inherited (Selector_id x)"
  by (simp add: Selector_id_def inherited_def Object_prototype_names_def)

lemma cache_ok_absent:
  "cache_ok c \<Longrightarrow> count_of c k = Count 0 \<Longrightarrow> map_of (cacheOf c) k = None"
  by (simp add: cache_ok_iff map_of_eq_None_iff)


lemma cache_ok_counted:
  "cache_ok c \<Longrightarrow> positive (count_of c k) \<Longrightarrow> map_of (cacheOf c) k \<noteq> None"
  by (simp add: cache_ok_iff map_of_eq_None_iff)

lemma map_of_add:
  assumes "cache_ok c" and "\<not> inherited (idf x)"
  shows "map_of (cacheOf (fst (Cache_add idf c x))) k
     = (if map_of (cacheOf c) k = None \<and> k = idf x then Some x else map_of (cacheOf c) k)"
proof (cases "count_of c (idf x) = Count 0")
  case True
  with assms have "map_of (cacheOf c) (idf x) = None"
    by (simp add: cache_ok_absent)
  with True show ?thesis
    by (simp add: Cache_add_def Let_def update_conv')
next
  case False
  moreover from assms obtain n where "count_of c (idf x) = Count n"
    using cache_ok_number by blast
  ultimately have "positive (count_of c (idf x))"
    by simp
  with assms have "map_of (cacheOf c) (idf x) \<noteq> None"
    by (simp add: cache_ok_counted)
  with False show ?thesis
    by (auto simp: Cache_add_def Let_def)
qed

lemma growsD_Style:
  "grows c c' \<Longrightarrow> map_of (cacheOf c) k = Some (Style t sels)
     \<Longrightarrow> \<exists>sels'. map_of (cacheOf c') k = Some (Style t sels') \<and> sel_grows sels sels'"
  unfolding grows_def by (drule spec [of _ k]) simp


lemma tree_ok_cache_ok: "tree_ok c \<Longrightarrow> cache_ok c"
  by (simp add: tree_ok_def)

lemma grows_act: "tree_ok c \<Longrightarrow> grows c (act x c)"
proof (cases x)
  case (AddNode p n)
  assume "tree_ok c"
  then have "cache_ok c" by (rule tree_ok_cache_ok)
  with AddNode show ?thesis
    by (auto simp: grows_def map_of_add sel_grows_refl split: option.splits node.splits)
next
  case (AddSelector style s)
  then show ?thesis
    by (auto simp: grows_def on_style_def map_of_map_entry sel_grows_refl sel_grows_add
        split: option.splits node.splits)
qed

lemma act_keeps_AtRule:
  "tree_ok c \<Longrightarrow> map_of (cacheOf c) k = Some (AtRule rule d)
     \<Longrightarrow> map_of (cacheOf (act x c)) k = Some (AtRule rule d)"
proof (cases x)
  case (AddNode p n)
  assume "tree_ok c" and "map_of (cacheOf c) k = Some (AtRule rule d)"
  with AddNode show ?thesis
    by (simp add: map_of_add tree_ok_cache_ok)
next
  case (AddSelector style s)
  assume "map_of (cacheOf c) k = Some (AtRule rule d)"
  with AddSelector show ?thesis
    by (auto simp: on_style_def map_of_map_entry)
qed

lemma grows_on_container_Cons: "grows r (on_container (j # q) f r)"
  by (auto simp: grows_def map_of_map_entry sel_grows_refl split: option.splits node.splits)

lemma get_container_grows:
  "tree_ok r \<Longrightarrow> get_container p r = Some c
     \<Longrightarrow> \<exists>c'. get_container p (on_container q (act x) r) = Some c' \<and> grows c c'"
proof (induction p arbitrary: r q c)
  case Nil
  then show ?case
    by (cases q) (simp_all add: grows_act grows_on_container_Cons del: on_container.simps(2))
next
  case (Cons i p)
  from Cons.prems(2) obtain rule d
    where d: "map_of (cacheOf r) i = Some (AtRule rule d)" "get_container p d = Some c"
    by (auto split: option.splits node.splits)
  with Cons.prems(1) have okd: "tree_ok d"
    using tree_ok_node node_ok_AtRule by blast
  show ?case
  proof (cases q)
    case Nil
    with d Cons.prems(1) have "get_container (i # p) (on_container q (act x) r) = Some c"
      by (simp add: act_keeps_AtRule)
    then show ?thesis
      using grows_refl by blast
  next
    case (Cons j q')
    show ?thesis
    proof (cases "j = i")
      case True
      from Cons.IH [OF okd d(2), of q'] obtain c'
        where "get_container p (on_container q' (act x) d) = Some c'" "grows c c'"
        by blast
      with d True Cons show ?thesis
        by (simp add: map_of_map_entry_same)
    next
      case False
      with d Cons have "get_container (i # p) (on_container q (act x) r) = Some c"
        by (simp add: map_of_map_entry_other)
      then show ?thesis
        using grows_refl by blast
    qed
  qed
qed


lemma ready_get: "ready x r \<Longrightarrow> \<exists>c. get_container (path_of x) r = Some c"
  by (cases x) (auto split: option.splits prod.splits)


lemma ready_grows:
  assumes "ready x r" and "get_container (path_of x) r = Some c"
    and "get_container (path_of x) r' = Some c'" and "grows c c'"
  shows "ready x r'"
proof (cases x)
  case (AddNode p n)
  with assms(3) show ?thesis by simp
next
  case (AddSelector style s)
  obtain p i where style: "style = (p, i)" by (cases style)
  with AddSelector assms(1,2) obtain t sels
    where m: "map_of (cacheOf c) i = Some (Style t sels)"
    by (auto split: option.splits node.splits)
  with assms(4) obtain sels' where "map_of (cacheOf c') i = Some (Style t sels')"
    using growsD_Style by blast
  with AddSelector style assms(3) show ?thesis
    by simp
qed


lemma ready_exec: "tree_ok r \<Longrightarrow> ready x r \<Longrightarrow> ready x (exec y r)"
  using ready_get [of x r] get_container_grows [of r "path_of x" _ "path_of y" y] ready_grows [of x r]
  by (metis exec_act)

subsection \<open>An addition is satisfied once made, and a satisfied addition changes no rule\<close>






subsection \<open>The additions of a registration are supported by the earlier ones\<close>






lemma path_ok_mono: "set prev \<subseteq> set prev' \<Longrightarrow> path_ok prev p \<Longrightarrow> path_ok prev' p"
  by (auto simp: path_ok_def)

lemma supported_mono: "set prev \<subseteq> set prev' \<Longrightarrow> supported prev x \<Longrightarrow> supported prev' x"
  using path_ok_mono by (cases x) auto

lemma wseq_mono: "set prev \<subseteq> set prev' \<Longrightarrow> wseq prev xs \<Longrightarrow> wseq prev' xs"
proof (induction xs arbitrary: prev prev')
  case Nil
  show ?case by simp
next
  case (Cons x xs)
  from Cons.prems have "set (prev @ [x]) \<subseteq> set (prev' @ [x])"
    by auto
  from Cons.IH [OF this] Cons.prems show ?case
    using supported_mono by auto
qed










subsection \<open>Registering the same content twice\<close>









end
